theory Spec2Isabelle
  imports Complex_Main "HOL-Library.AList"
begin

section \<open>Word labelling of eye-tracking fixations (functions/word_labeller.py)\<close>

text \<open>
  The script computes, for every row of a spreadsheet, the pixel interval of each word of
  a sentence (\<open>fill_word_labels\<close>) and looks a fixation's x-coordinate up in these
  intervals (\<open>find_interest_area\<close>). Both functions are embedded below, together with
  the library calls they make (\<open>str\<close>, \<open>str.split\<close>, \<open>len\<close>, f-string formatting of
  integers, \<open>json.dumps\<close>, \<open>ast.literal_eval\<close>, \<open>min\<close>, \<open>max\<close> and the comparison
  operators).

  A Python \<open>str\<close> is modelled by a \<^typ>\<open>string\<close> in which every \<^typ>\<open>char\<close> stands for
  one code point below 256, so that \<^const>\<open>length\<close> is Python's \<open>len\<close> on such text.
\<close>

subsection \<open>Exceptions and values\<close>

text \<open>
  \<open>ValueError\<close> and \<open>TypeError\<close> are Python's. \<open>LiteralError\<close> is the outcome of
  \<open>ast.literal_eval\<close> on a text that is not a literal of the fragment modelled in
  \<open>literal_eval\<close> below (where Python raises \<open>SyntaxError\<close> or \<open>ValueError\<close>, or the
  text is a literal this development does not model).
\<close>

datatype exn = ValueError | TypeError | LiteralError

text \<open>
  A value of the fixation column, and a value returned by the resolver: text, a finite
  number (Python compares an \<open>int\<close> with a \<open>float\<close> by their exact values, so a finite
  float is the rational it denotes), the float \<open>nan\<close> (what pandas stores for an empty
  cell), or \<open>None\<close>.
\<close>

datatype pyval = Str string | Num rat | NaN | PyNone

text \<open>
  A value of one of the four region columns: text, an integer, or \<open>nan\<close> for an empty
  cell.
\<close>

datatype cell = Text string | Whole int | Blank

record row =
  beginning :: cell
  pretarget :: cell
  target_word :: cell
  ending :: cell

subsection \<open>Constants of the script\<close>

definition Offset :: int where
  "Offset = 281"

definition PPC :: int where
  "PPC = 14"

subsection \<open>Library functions: decimal text, \<open>str\<close>, \<open>str.split\<close>\<close>

definition digit_char :: "nat \<Rightarrow> char" where
  "digit_char d = ''0123456789'' ! d"

fun str_nat :: "nat \<Rightarrow> string" where
  "str_nat n = (if n < 10 then [digit_char n] else str_nat (n div 10) @ [digit_char (n mod 10)])"

declare str_nat.simps [simp del]

definition str_int :: "int \<Rightarrow> string" where
  "str_int i = (if i < 0 then CHR ''-'' # str_nat (nat (- i)) else str_nat (nat i))"

text \<open>\<open>str(region_sentence)\<close>: text is itself, an integer its decimal text, \<open>nan\<close> is \<open>'nan'\<close>.\<close>

fun str_cell :: "cell \<Rightarrow> string" where
  "str_cell (Text s) = s"
| "str_cell (Whole i) = str_int i"
| "str_cell Blank = ''nan''"

text \<open>
  \<open>str.isspace\<close> on a code point below 256: tab to carriage return, the four
  separators 28 to 31, the space, NEL (133) and the no-break space (160).
\<close>

definition isspace :: "char \<Rightarrow> bool" where
  "isspace c = (let n = (of_char c :: nat)
                in (9 \<le> n \<and> n \<le> 13) \<or> (28 \<le> n \<and> n \<le> 32) \<or> n = 133 \<or> n = 160)"

text \<open>
  \<open>s.split()\<close> with no separator: the maximal runs of characters that are not white
  space, in order. \<open>split_from w s\<close> scans \<open>s\<close> with the word \<open>w\<close> read so far.
\<close>

fun split_from :: "string \<Rightarrow> string \<Rightarrow> string list" where
  "split_from w [] = (if w = [] then [] else [w])"
| "split_from w (c # cs) =
     (if isspace c then (if w = [] then split_from [] cs else w # split_from [] cs)
      else split_from (w @ [c]) cs)"

definition split :: "string \<Rightarrow> string list" where
  "split s = split_from [] s"

subsection \<open>The builder: \<open>fill_word_labels\<close>\<close>

text \<open>
  The dictionary \<open>word_labels\<close> is an association list in insertion order; an assignment
  \<open>word_labels[key] = v\<close> is \<^const>\<open>AList.update\<close> (a new key goes last, an old key keeps its
  place). The two \<open>nonlocal\<close> variables and the dictionary form the state the closure
  \<open>word_labeller\<close> works on.
\<close>

record labeller_state =
  word_labels :: "(string \<times> int \<times> int) list"
  last_word_ending_pos :: int
  odd_space :: int

definition label :: "nat \<Rightarrow> nat \<Rightarrow> string" where
  "label region index = str_nat region @ ''.'' @ str_nat index"

text \<open>The loop \<open>for index, word in enumerate(words, start=1)\<close>, from \<open>index\<close> on.\<close>

fun word_loop :: "nat \<Rightarrow> nat \<Rightarrow> string list \<Rightarrow> labeller_state \<Rightarrow> labeller_state" where
  "word_loop region index [] st = st"
| "word_loop region index (word # words) st =
     (let key = label region index;
          start = last_word_ending_pos st;
          end' = start + PPC * (int (length word) + odd_space st)
      in word_loop region (Suc index) words
           \<lparr>word_labels = AList.update key (start, end') (word_labels st),
            last_word_ending_pos = end',
            odd_space = 1\<rparr>)"

definition word_labeller :: "nat \<Rightarrow> cell \<Rightarrow> labeller_state \<Rightarrow> labeller_state" where
  "word_labeller region region_sentence st = word_loop region 1 (split (str_cell region_sentence)) st"

definition initial_state :: labeller_state where
  "initial_state = \<lparr>word_labels = [], last_word_ending_pos = Offset, odd_space = 0\<rparr>"

text \<open>The state after the four calls of \<open>word_labeller\<close>, and the dictionary it holds.\<close>

definition labelled :: "row \<Rightarrow> labeller_state" where
  "labelled r =
     word_labeller 4 (ending r)
       (word_labeller 3 (target_word r)
         (word_labeller 2 (pretarget r)
           (word_labeller 1 (beginning r) initial_state)))"

definition word_positions :: "row \<Rightarrow> (string \<times> int \<times> int) list" where
  "word_positions r = word_labels (labelled r)"

subsection \<open>Library functions: \<open>json.dumps\<close>\<close>

text \<open>
  \<open>json.dumps\<close> on a dictionary from text to pairs of integers, with the default
  separators and \<open>ensure_ascii\<close>: a key is written between double quotes, with the quote,
  the backslash and every character outside the printable ASCII range escaped; a tuple
  is written as a JSON array.
\<close>

definition hex_char :: "nat \<Rightarrow> char" where
  "hex_char d = ''0123456789abcdef'' ! d"

definition json_escape :: "char \<Rightarrow> string" where
  "json_escape c =
     (let n = (of_char c :: nat) in
      if c = CHR 0x22 then [CHR 0x5C, CHR 0x22]
      else if c = CHR 0x5C then [CHR 0x5C, CHR 0x5C]
      else if n = 10 then [CHR 0x5C, CHR ''n'']
      else if n = 13 then [CHR 0x5C, CHR ''r'']
      else if n = 9 then [CHR 0x5C, CHR ''t'']
      else if n = 8 then [CHR 0x5C, CHR ''b'']
      else if n = 12 then [CHR 0x5C, CHR ''f'']
      else if 32 \<le> n \<and> n \<le> 126 then [c]
      else [CHR 0x5C, CHR ''u'', CHR ''0'', CHR ''0'', hex_char (n div 16), hex_char (n mod 16)])"

definition json_str :: "string \<Rightarrow> string" where
  "json_str s = CHR 0x22 # concat (map json_escape s) @ [CHR 0x22]"

fun json_pair :: "int \<times> int \<Rightarrow> string" where
  "json_pair (a, b) = ''['' @ str_int a @ '', '' @ str_int b @ '']''"

fun json_item :: "string \<times> int \<times> int \<Rightarrow> string" where
  "json_item (k, v) = json_str k @ '': '' @ json_pair v"

fun join :: "string \<Rightarrow> string list \<Rightarrow> string" where
  "join sep [] = []"
| "join sep [x] = x"
| "join sep (x # y # ys) = x @ sep @ join sep (y # ys)"

definition dumps :: "(string \<times> int \<times> int) list \<Rightarrow> string" where
  "dumps d = ''{'' @ join '', '' (map json_item d) @ ''}''"

definition fill_word_labels :: "row \<Rightarrow> string" where
  "fill_word_labels r = dumps (word_positions r)"

subsection \<open>Library functions: \<open>ast.literal_eval\<close>\<close>

text \<open>
  The fragment of Python literals modelled: a dictionary display whose keys are
  double-quoted strings of printable ASCII characters without quote or backslash and
  whose values are list displays of two decimal integers (an optional minus sign, no
  leading zero), with any number of spaces between tokens and an optional trailing
  comma. On such a text \<open>ast.literal_eval\<close> returns the dictionary read below; a key
  written twice keeps its first place and its last value. Every other text is
  \<open>LiteralError\<close>. (Python's limit on the number of digits of an integer literal is not
  modelled.)
\<close>

datatype token = LBrace | RBrace | LBrack | RBrack | Colon | Comma | StrLit string | IntLit int

datatype lex_state = Idle | InStr string | InNum string

definition isdigit :: "char \<Rightarrow> bool" where
  "isdigit c = (let n = (of_char c :: nat) in 48 \<le> n \<and> n \<le> 57)"

definition plain :: "char \<Rightarrow> bool" where
  "plain c = (let n = (of_char c :: nat) in 32 \<le> n \<and> n \<le> 126 \<and> c \<noteq> CHR 0x22 \<and> c \<noteq> CHR 0x5C)"

definition nat_of_digits :: "string \<Rightarrow> nat" where
  "nat_of_digits ds = foldl (\<lambda>acc c. 10 * acc + (of_char c - 48)) 0 ds"

definition wellformed_digits :: "string \<Rightarrow> bool" where
  "wellformed_digits ds = (ds \<noteq> [] \<and> list_all isdigit ds \<and> (hd ds = CHR ''0'' \<longrightarrow> length ds = 1))"

definition int_token :: "string \<Rightarrow> token option" where
  "int_token s =
     (case s of
        [] \<Rightarrow> None
      | c # ds \<Rightarrow>
          if c = CHR ''-''
          then (if wellformed_digits ds then Some (IntLit (- int (nat_of_digits ds))) else None)
          else (if wellformed_digits s then Some (IntLit (int (nat_of_digits s))) else None))"

definition punct :: "char \<Rightarrow> token option" where
  "punct c =
     (if c = CHR ''{'' then Some LBrace
      else if c = CHR ''}'' then Some RBrace
      else if c = CHR ''['' then Some LBrack
      else if c = CHR '']'' then Some RBrack
      else if c = CHR '':'' then Some Colon
      else if c = CHR '','' then Some Comma
      else None)"

fun lex :: "lex_state \<Rightarrow> string \<Rightarrow> token list option" where
  "lex Idle [] = Some []"
| "lex Idle (c # cs) =
     (if c = CHR '' '' then lex Idle cs
      else if c = CHR 0x22 then lex (InStr []) cs
      else if isdigit c \<or> c = CHR ''-'' then lex (InNum [c]) cs
      else (case punct c of
              Some p \<Rightarrow> map_option ((#) p) (lex Idle cs)
            | None \<Rightarrow> None))"
| "lex (InStr s) [] = None"
| "lex (InStr s) (c # cs) =
     (if c = CHR 0x22 then map_option ((#) (StrLit s)) (lex Idle cs)
      else if plain c then lex (InStr (s @ [c])) cs
      else None)"
| "lex (InNum s) [] = map_option (\<lambda>t. [t]) (int_token s)"
| "lex (InNum s) (c # cs) =
     (if isdigit c then lex (InNum (s @ [c])) cs
      else (case int_token s of
              None \<Rightarrow> None
            | Some t \<Rightarrow>
                (if c = CHR '' '' then map_option ((#) t) (lex Idle cs)
                 else (case punct c of
                         Some p \<Rightarrow> map_option (\<lambda>ts. t # p # ts) (lex Idle cs)
                       | None \<Rightarrow> None))))"

text \<open>One \<open>key: [a, b]\<close> at the head of the tokens, with the tokens after it.\<close>

definition entry :: "token list \<Rightarrow> ((string \<times> int \<times> int) \<times> token list) option" where
  "entry ts =
     (case ts of
        StrLit k # t1 # t2 # IntLit a # t3 # IntLit b # t4 # rest \<Rightarrow>
          if t1 = Colon \<and> t2 = LBrack \<and> t3 = Comma \<and> t4 = RBrack
          then Some ((k, a, b), rest) else None
      | _ \<Rightarrow> None)"

lemma entry_shorter: "entry ts = Some (kv, rest) \<Longrightarrow> length rest < length ts"
  by (auto simp: entry_def split: list.splits token.splits if_splits)

text \<open>
  The entries after the opening brace, up to the closing brace that ends the text; \<open>d\<close>
  is the dictionary read so far.
\<close>

function items :: "token list \<Rightarrow> (string \<times> int \<times> int) list \<Rightarrow> (string \<times> int \<times> int) list option" where
  "items ts d =
     (case entry ts of
        None \<Rightarrow> (if ts = [RBrace] then Some d else None)
      | Some ((k, v), rest) \<Rightarrow>
          (case rest of
             [] \<Rightarrow> None
           | t # rest' \<Rightarrow>
               if t = RBrace \<and> rest' = [] then Some (AList.update k v d)
               else if t = Comma then items rest' (AList.update k v d)
               else None))"
  by pat_completeness auto
termination
  by (relation "measure (\<lambda>(ts, d). length ts)") (auto dest: entry_shorter)

declare items.simps [simp del]

definition literal_eval :: "string \<Rightarrow> exn + (string \<times> int \<times> int) list" where
  "literal_eval s =
     (case lex Idle s of
        None \<Rightarrow> Inl LiteralError
      | Some [] \<Rightarrow> Inl LiteralError
      | Some (t # ts) \<Rightarrow>
          if t = LBrace
          then (case items ts [] of None \<Rightarrow> Inl LiteralError | Some d \<Rightarrow> Inr d)
          else Inl LiteralError)"

subsection \<open>The resolver: \<open>find_interest_area\<close>\<close>

text \<open>
  The comparisons the resolver makes between an endpoint (an \<open>int\<close>) and the fixation.
  An order comparison of an \<open>int\<close> with text or \<open>None\<close> raises \<open>TypeError\<close>; with \<open>nan\<close>
  it is false; \<open>==\<close> never raises.
\<close>

fun int_lt_val :: "int \<Rightarrow> pyval \<Rightarrow> exn + bool" where
  "int_lt_val a (Num q) = Inr (of_int a < q)"
| "int_lt_val a NaN = Inr False"
| "int_lt_val a (Str s) = Inl TypeError"
| "int_lt_val a PyNone = Inl TypeError"

fun val_le_int :: "pyval \<Rightarrow> int \<Rightarrow> exn + bool" where
  "val_le_int (Num q) b = Inr (q \<le> of_int b)"
| "val_le_int NaN b = Inr False"
| "val_le_int (Str s) b = Inl TypeError"
| "val_le_int PyNone b = Inl TypeError"

fun val_lt_int :: "pyval \<Rightarrow> int \<Rightarrow> exn + bool" where
  "val_lt_int (Num q) b = Inr (q < of_int b)"
| "val_lt_int NaN b = Inr False"
| "val_lt_int (Str s) b = Inl TypeError"
| "val_lt_int PyNone b = Inl TypeError"

fun val_gt_int :: "pyval \<Rightarrow> int \<Rightarrow> exn + bool" where
  "val_gt_int (Num q) b = Inr (q > of_int b)"
| "val_gt_int NaN b = Inr False"
| "val_gt_int (Str s) b = Inl TypeError"
| "val_gt_int PyNone b = Inl TypeError"

fun val_eq_int :: "pyval \<Rightarrow> int \<Rightarrow> bool" where
  "val_eq_int (Num q) b = (q = of_int b)"
| "val_eq_int v b = False"

text \<open>
  The chained comparison \<open>x_min < fixation <= x_max\<close>: the second comparison is made
  only when the first is true.
\<close>

definition in_interval :: "int \<Rightarrow> pyval \<Rightarrow> int \<Rightarrow> exn + bool" where
  "in_interval x_min fixation x_max =
     (case int_lt_val x_min fixation of
        Inl e \<Rightarrow> Inl e
      | Inr lower \<Rightarrow> if lower then val_le_int fixation x_max else Inr False)"

text \<open>
  The loop over \<open>word_positions.items()\<close>: the key of the first interval the fixation
  lies in, \<open>None\<close> when the loop ends without returning.
\<close>

fun scan :: "(string \<times> int \<times> int) list \<Rightarrow> pyval \<Rightarrow> exn + string option" where
  "scan [] fixation = Inr None"
| "scan ((key, x_min, x_max) # later) fixation =
     (case in_interval x_min fixation x_max of
        Inl e \<Rightarrow> Inl e
      | Inr inside \<Rightarrow> if inside then Inr (Some key) else scan later fixation)"

text \<open>\<open>min\<close> and \<open>max\<close> of a list raise \<open>ValueError\<close> on the empty list.\<close>

fun py_min :: "int list \<Rightarrow> exn + int" where
  "py_min [] = Inl ValueError"
| "py_min (x # xs) = Inr (fold min xs x)"

fun py_max :: "int list \<Rightarrow> exn + int" where
  "py_max [] = Inl ValueError"
| "py_max (x # xs) = Inr (fold max xs x)"

definition all_values :: "(string \<times> int \<times> int) list \<Rightarrow> int list" where
  "all_values wp = concat (map (\<lambda>(key, x_min, x_max). [x_min, x_max]) wp)"

text \<open>
  The body of \<open>find_interest_area\<close> after the positions are deserialised. (The source
  evaluates \<open>min(all_values)\<close> in both the \<open>if\<close> and the \<open>elif\<close>; the second evaluation
  gives what the first gave.)
\<close>

definition resolve :: "(string \<times> int \<times> int) list \<Rightarrow> pyval \<Rightarrow> exn + pyval" where
  "resolve wp fixation =
     (case scan wp fixation of
        Inl e \<Rightarrow> Inl e
      | Inr (Some key) \<Rightarrow> Inr (Str key)
      | Inr None \<Rightarrow>
          (case py_min (all_values wp) of
             Inl e \<Rightarrow> Inl e
           | Inr lo \<Rightarrow>
               if val_eq_int fixation lo then Inr (Str ''1.1'')
               else (case val_lt_int fixation lo of
                       Inl e \<Rightarrow> Inl e
                     | Inr is_left \<Rightarrow>
                         if is_left then Inr (Str ''left'')
                         else (case py_max (all_values wp) of
                                 Inl e \<Rightarrow> Inl e
                               | Inr hi \<Rightarrow>
                                   (case val_gt_int fixation hi of
                                      Inl e \<Rightarrow> Inl e
                                    | Inr is_right \<Rightarrow>
                                        if is_right then Inr (Str ''right'') else Inr PyNone)))))"

definition find_interest_area :: "string \<Rightarrow> pyval \<Rightarrow> exn + pyval" where
  "find_interest_area positions fixation =
     (if fixation = Str ''.'' then Inr fixation
      else (case literal_eval positions of
              Inl e \<Rightarrow> Inl e
            | Inr wp \<Rightarrow> resolve wp fixation))"

subsection \<open>What the builder is specified to compute\<close>

text \<open>The words of a row in the order the builder meets them, and their labels.\<close>

definition region_words :: "cell \<Rightarrow> string list" where
  "region_words c = split (str_cell c)"

definition words_of :: "row \<Rightarrow> string list" where
  "words_of r =
     region_words (beginning r) @ region_words (pretarget r) @
     region_words (target_word r) @ region_words (ending r)"

definition region_labels :: "nat \<Rightarrow> string list \<Rightarrow> string list" where
  "region_labels region ws = map (label region) [1..<Suc (length ws)]"

definition labels_of :: "row \<Rightarrow> string list" where
  "labels_of r =
     region_labels 1 (region_words (beginning r)) @ region_labels 2 (region_words (pretarget r)) @
     region_labels 3 (region_words (target_word r)) @ region_labels 4 (region_words (ending r))"

text \<open>
  The width of the \<open>i\<close>-th word overall (counted from 0): the extra space is 0 for the
  very first word and 1 for every later one. The running cursor before the \<open>i\<close>-th word
  starts at the offset and advances by the width of each word passed.
\<close>

definition spec_width :: "nat \<Rightarrow> string \<Rightarrow> int" where
  "spec_width i w = PPC * (int (length w) + (if i = 0 then 0 else 1))"

fun spec_cursor :: "string list \<Rightarrow> nat \<Rightarrow> int" where
  "spec_cursor ws 0 = Offset"
| "spec_cursor ws (Suc i) = spec_cursor ws i + spec_width i (ws ! i)"

text \<open>
  The intervals of the words \<open>ws\<close> laid side by side from the cursor \<open>c\<close>, the first with
  extra space \<open>sp\<close>, and the cursor after them.
\<close>

fun intervals :: "int \<Rightarrow> int \<Rightarrow> string list \<Rightarrow> (int \<times> int) list" where
  "intervals c sp [] = []"
| "intervals c sp (w # ws) =
     (c, c + PPC * (int (length w) + sp)) # intervals (c + PPC * (int (length w) + sp)) 1 ws"

fun end_cursor :: "int \<Rightarrow> int \<Rightarrow> string list \<Rightarrow> int" where
  "end_cursor c sp [] = c"
| "end_cursor c sp (w # ws) = end_cursor (c + PPC * (int (length w) + sp)) 1 ws"

text \<open>
  The state of the builder once the words \<open>ws\<close>, labelled \<open>ks\<close>, have been laid out from
  the offset.
\<close>

definition built :: "string list \<Rightarrow> string list \<Rightarrow> labeller_state \<Rightarrow> bool" where
  "built ks ws st =
     (word_labels st = zip ks (intervals Offset 0 ws) \<and> length ks = length ws \<and>
      last_word_ending_pos st = end_cursor Offset 0 ws \<and>
      odd_space st = (if ws = [] then 0 else 1))"

text \<open>The test of the resolver's loop on a numeric fixation, as a predicate on an entry.\<close>

definition hit :: "rat \<Rightarrow> string \<times> int \<times> int \<Rightarrow> bool" where
  "hit q e = (of_int (fst (snd e)) < q \<and> q \<le> of_int (snd (snd e)))"

text \<open>The least and the greatest endpoint of a non-empty dictionary of intervals.\<close>

definition min_endpoint :: "(string \<times> int \<times> int) list \<Rightarrow> int" where
  "min_endpoint wp = Min (set (all_values wp))"

definition max_endpoint :: "(string \<times> int \<times> int) list \<Rightarrow> int" where
  "max_endpoint wp = Max (set (all_values wp))"

text \<open>The row of the script's own example.\<close>

definition example_row :: row where
  "example_row =
     \<lparr>beginning = Text ''I did not'', pretarget = Text ''go to'',
      target_word = Text ''school'', ending = Text ''and stayed home.''\<rparr>"

text \<open>
  The tokens of the text \<open>dumps\<close> writes (of one entry, and of the entries up to the
  closing brace), and the dictionary that results from storing a list of entries in order.
\<close>

fun item_tokens :: "string \<times> int \<times> int \<Rightarrow> token list" where
  "item_tokens (k, a, b) = [StrLit k, Colon, LBrack, IntLit a, Comma, IntLit b, RBrack]"

fun body_tokens :: "(string \<times> int \<times> int) list \<Rightarrow> token list" where
  "body_tokens [] = [RBrace]"
| "body_tokens [e] = item_tokens e @ [RBrace]"
| "body_tokens (e # e' # es) = item_tokens e @ Comma # body_tokens (e' # es)"

fun store_all :: "(string \<times> int \<times> int) list \<Rightarrow> (string \<times> int \<times> int) list \<Rightarrow> (string \<times> int \<times> int) list" where
  "store_all [] acc = acc"
| "store_all ((k, v) # es) acc = store_all es (AList.update k v acc)"

text \<open>
  A row whose four regions hold no word, and a dictionary with a gap between its two
  intervals, as the text the resolver receives and as the dictionary it denotes.
\<close>

definition blank_row :: row where
  "blank_row = \<lparr>beginning = Text '''', pretarget = Text '' '', target_word = Text '''', ending = Text ''''\<rparr>"

definition gap_positions :: string where
  \<open>gap_positions = ''{"1.1": [0, 10], "1.2": [20, 30]}''\<close>

definition gap_map :: "(string \<times> int \<times> int) list" where
  "gap_map = [(''1.1'', 0, 10), (''1.2'', 20, 30)]"

section \<open>Decimal text\<close>

lemma digit_cases:
  "d < 10 \<Longrightarrow> d = 0 \<or> d = 1 \<or> d = 2 \<or> d = 3 \<or> d = 4 \<or> d = 5 \<or> d = 6 \<or> d = 7 \<or> d = 8 \<or> d = (9::nat)"
  by arith

lemma digit_char_code: "d < 10 \<Longrightarrow> of_char (digit_char d) = 48 + d"
  using digit_cases [of d] by (auto simp: digit_char_def)

lemma isdigit_digit_char: "d < 10 \<Longrightarrow> isdigit (digit_char d)"
  by (simp add: isdigit_def digit_char_code)

lemma isdigit_str_nat: "list_all isdigit (str_nat n)"
  by (induction n rule: str_nat.induct) (subst str_nat.simps, simp add: isdigit_digit_char)

lemma str_nat_nonempty: "str_nat n \<noteq> []"
  by (subst str_nat.simps) simp

lemma nat_of_digits_snoc: "nat_of_digits (ds @ [c]) = 10 * nat_of_digits ds + (of_char c - 48)"
  by (simp add: nat_of_digits_def)

lemma nat_of_digits_str_nat: "nat_of_digits (str_nat n) = n"
proof (induction n rule: str_nat.induct)
  case (1 n)
  show ?case
  proof (cases "n < 10")
    case True
    then show ?thesis
      by (subst str_nat.simps) (simp add: nat_of_digits_def digit_char_code)
  next
    case False
    with 1 have "nat_of_digits (str_nat (n div 10)) = n div 10" by simp
    with False show ?thesis
      by (subst str_nat.simps) (simp add: nat_of_digits_snoc digit_char_code)
  qed
qed

lemma str_nat_inj: "str_nat m = str_nat n \<Longrightarrow> m = n"
  by (metis nat_of_digits_str_nat)

lemma hd_str_nat_zero: "hd (str_nat n) = CHR ''0'' \<Longrightarrow> n = 0"
proof (induction n rule: str_nat.induct)
  case (1 n)
  show ?case
  proof (cases "n < 10")
    case True
    with 1(2) have "digit_char n = CHR ''0''" by (subst (asm) str_nat.simps) simp
    then have "(of_char (digit_char n) :: nat) = 48" by simp
    with True show ?thesis by (simp add: digit_char_code)
  next
    case False
    with 1(2) have "hd (str_nat (n div 10)) = CHR ''0''"
      by (subst (asm) str_nat.simps) (simp add: str_nat_nonempty)
    with 1(1) False have "n div 10 = 0" by simp
    with False show ?thesis by simp
  qed
qed

lemma wellformed_str_nat: "wellformed_digits (str_nat n)"
proof -
  have "hd (str_nat n) = CHR ''0'' \<longrightarrow> length (str_nat n) = 1"
  proof
    assume "hd (str_nat n) = CHR ''0''"
    then have "n = 0" by (rule hd_str_nat_zero)
    then show "length (str_nat n) = 1" by (simp add: str_nat.simps)
  qed
  then show ?thesis
    by (simp add: wellformed_digits_def str_nat_nonempty isdigit_str_nat)
qed

lemma isdigit_not_dot: "isdigit c \<Longrightarrow> c \<noteq> CHR ''.''"
  by (auto simp: isdigit_def)

lemma dot_notin_str_nat: "CHR ''.'' \<notin> set (str_nat n)"
  using isdigit_str_nat [of n] by (auto simp: list_all_iff dest: isdigit_not_dot)

lemma split_at_sep:
  "x \<notin> set a \<Longrightarrow> x \<notin> set a' \<Longrightarrow> a @ x # b = a' @ x # b' \<Longrightarrow> a = a' \<and> b = b'"
proof (induction a arbitrary: a')
  case Nil
  then show ?case by (cases a') auto
next
  case (Cons y a)
  then show ?case by (cases a') auto
qed

lemma label_inj: "label r i = label r' i' \<Longrightarrow> r = r' \<and> i = i'"
proof -
  assume "label r i = label r' i'"
  then have "str_nat r @ CHR ''.'' # str_nat i = str_nat r' @ CHR ''.'' # str_nat i'"
    by (simp add: label_def)
  then have "str_nat r = str_nat r' \<and> str_nat i = str_nat i'"
    by (rule split_at_sep [OF dot_notin_str_nat dot_notin_str_nat])
  then show ?thesis by (auto dest: str_nat_inj)
qed

section \<open>The builder lays the words side by side\<close>

lemma update_fresh: "k \<notin> fst ` set al \<Longrightarrow> AList.update k v al = al @ [(k, v)]"
  by (induction al) auto

lemma word_loop_char:
  "(\<And>j. label region (index + j) \<notin> fst ` set (word_labels st)) \<Longrightarrow>
   word_loop region index ws st =
     \<lparr>word_labels = word_labels st @
        zip (map (label region) [index..<index + length ws])
            (intervals (last_word_ending_pos st) (odd_space st) ws),
      last_word_ending_pos = end_cursor (last_word_ending_pos st) (odd_space st) ws,
      odd_space = (if ws = [] then odd_space st else 1)\<rparr>"
proof (induction ws arbitrary: index st)
  case Nil
  then show ?case by simp
next
  case (Cons w ws)
  let ?e = "last_word_ending_pos st + PPC * (int (length w) + odd_space st)"
  let ?st = "\<lparr>word_labels = AList.update (label region index) (last_word_ending_pos st, ?e) (word_labels st),
             last_word_ending_pos = ?e, odd_space = 1\<rparr>"
  from Cons.prems [of 0] have fresh: "label region index \<notin> fst ` set (word_labels st)" by simp
  then have upd: "AList.update (label region index) (last_word_ending_pos st, ?e) (word_labels st)
      = word_labels st @ [(label region index, last_word_ending_pos st, ?e)]"
    by (rule update_fresh)
  have "label region (Suc index + j) \<notin> fst ` set (word_labels ?st)" for j
    using Cons.prems [of "Suc j"] by (auto simp: upd dest: label_inj)
  then have "word_loop region (Suc index) ws ?st =
     \<lparr>word_labels = word_labels ?st @
        zip (map (label region) [Suc index..<Suc index + length ws])
            (intervals (last_word_ending_pos ?st) (odd_space ?st) ws),
      last_word_ending_pos = end_cursor (last_word_ending_pos ?st) (odd_space ?st) ws,
      odd_space = (if ws = [] then odd_space ?st else 1)\<rparr>"
    by (rule Cons.IH)
  then show ?case
    by (simp add: Let_def upd upt_conv_Cons del: upt_Suc)
qed


lemma length_intervals: "length (intervals c sp ws) = length ws"
  by (induction ws arbitrary: c sp) auto

lemma intervals_append:
  "intervals c sp (ws @ ws') =
     intervals c sp ws @ intervals (end_cursor c sp ws) (if ws = [] then sp else 1) ws'"
  by (induction ws arbitrary: c sp) auto

lemma end_cursor_append:
  "end_cursor c sp (ws @ ws') = end_cursor (end_cursor c sp ws) (if ws = [] then sp else 1) ws'"
  by (induction ws arbitrary: c sp) auto

lemma length_region_labels: "length (region_labels region ws) = length ws"
  by (simp add: region_labels_def del: upt_Suc)

lemma word_labeller_char:
  assumes "\<And>j. label region (1 + j) \<notin> fst ` set (word_labels st)"
  shows "word_labeller region c st =
     \<lparr>word_labels = word_labels st @
        zip (region_labels region (region_words c))
            (intervals (last_word_ending_pos st) (odd_space st) (region_words c)),
      last_word_ending_pos = end_cursor (last_word_ending_pos st) (odd_space st) (region_words c),
      odd_space = (if region_words c = [] then odd_space st else 1)\<rparr>"
  unfolding word_labeller_def region_words_def [symmetric]
  by (subst word_loop_char [OF assms]) (simp add: region_labels_def del: upt_Suc)

lemma built_initial: "built [] [] initial_state"
  by (simp add: built_def initial_state_def)

lemma built_step:
  assumes st: "built ks ws st"
    and fresh: "\<And>j. label region (1 + j) \<notin> set ks"
  shows "built (ks @ region_labels region (region_words c)) (ws @ region_words c)
           (word_labeller region c st)"
proof -
  have "label region (1 + j) \<notin> fst ` set (word_labels st)" for j
    using fresh [of j] st by (auto simp: built_def dest: set_zip_leftD)
  then have eq: "word_labeller region c st =
     \<lparr>word_labels = word_labels st @
        zip (region_labels region (region_words c))
            (intervals (last_word_ending_pos st) (odd_space st) (region_words c)),
      last_word_ending_pos = end_cursor (last_word_ending_pos st) (odd_space st) (region_words c),
      odd_space = (if region_words c = [] then odd_space st else 1)\<rparr>"
    by (rule word_labeller_char)
  from st show ?thesis
    by (simp add: eq built_def intervals_append end_cursor_append length_intervals
          length_region_labels)
qed

lemma label_notin_region: "region \<noteq> region' \<Longrightarrow> label region i \<notin> set (region_labels region' ws)"
  by (auto simp: region_labels_def dest: label_inj)

lemma built_labelled: "built (labels_of r) (words_of r) (labelled r)"
proof -
  let ?k1 = "region_labels 1 (region_words (beginning r))"
  let ?k2 = "region_labels 2 (region_words (pretarget r))"
  let ?k3 = "region_labels 3 (region_words (target_word r))"
  have "built ([] @ ?k1) ([] @ region_words (beginning r))
          (word_labeller 1 (beginning r) initial_state)"
    by (rule built_step [OF built_initial]) simp
  then have "built ((([] @ ?k1) @ ?k2)) (([] @ region_words (beginning r)) @ region_words (pretarget r))
          (word_labeller 2 (pretarget r) (word_labeller 1 (beginning r) initial_state))"
    by (rule built_step) (simp add: label_notin_region)
  then have "built (((([] @ ?k1) @ ?k2) @ ?k3))
          ((([] @ region_words (beginning r)) @ region_words (pretarget r)) @ region_words (target_word r))
          (word_labeller 3 (target_word r)
            (word_labeller 2 (pretarget r) (word_labeller 1 (beginning r) initial_state)))"
    by (rule built_step) (simp add: label_notin_region)
  then have "built ((((([] @ ?k1) @ ?k2) @ ?k3)) @ region_labels 4 (region_words (ending r)))
          (((([] @ region_words (beginning r)) @ region_words (pretarget r)) @ region_words (target_word r))
             @ region_words (ending r))
          (word_labeller 4 (ending r) (word_labeller 3 (target_word r)
            (word_labeller 2 (pretarget r) (word_labeller 1 (beginning r) initial_state))))"
    by (rule built_step) (simp add: label_notin_region)
  then show ?thesis
    by (simp add: labelled_def labels_of_def words_of_def)
qed

lemma word_positions_zip: "word_positions r = zip (labels_of r) (intervals Offset 0 (words_of r))"
  using built_labelled [of r] by (simp add: word_positions_def built_def)

lemma length_labels_of: "length (labels_of r) = length (words_of r)"
  using built_labelled [of r] by (simp add: built_def)

lemma spec_cursor_append: "i \<le> length ws \<Longrightarrow> spec_cursor (ws @ ws') i = spec_cursor ws i"
  by (induction i) (auto simp: nth_append)

lemma end_cursor_spec: "end_cursor Offset 0 ws = spec_cursor ws (length ws)"
proof (induction ws rule: rev_induct)
  case Nil
  then show ?case by simp
next
  case (snoc w ws)
  then show ?case
    by (simp add: end_cursor_append spec_cursor_append spec_width_def)
qed

lemma intervals_nth:
  "i < length ws \<Longrightarrow>
   intervals Offset 0 ws ! i = (spec_cursor ws i, spec_cursor ws i + spec_width i (ws ! i))"
proof (induction ws rule: rev_induct)
  case Nil
  then show ?case by simp
next
  case (snoc w ws)
  show ?case
  proof (cases "i < length ws")
    case True
    with snoc.IH show ?thesis
      by (simp add: intervals_append nth_append length_intervals spec_cursor_append)
  next
    case False
    with snoc.prems have "i = length ws" by simp
    then show ?thesis
      by (simp add: intervals_append nth_append length_intervals spec_cursor_append
            end_cursor_spec spec_width_def)
  qed
qed

lemma split_from_nonempty: "w' \<in> set (split_from w s) \<Longrightarrow> w' \<noteq> []"
  by (induction s arbitrary: w) (auto split: if_splits)

lemma words_of_nonempty: "w \<in> set (words_of r) \<Longrightarrow> w \<noteq> []"
  by (auto simp: words_of_def region_words_def split_def dest: split_from_nonempty)

lemma word_positions_nth:
  assumes "i < length (words_of r)"
  shows "word_positions r ! i =
           (labels_of r ! i, spec_cursor (words_of r) i,
            spec_cursor (words_of r) i + spec_width i (words_of r ! i))"
  using assms by (simp add: word_positions_zip length_labels_of length_intervals intervals_nth)

lemma length_word_positions: "length (word_positions r) = length (words_of r)"
  by (simp add: word_positions_zip length_labels_of length_intervals)

lemma map_fst_word_positions: "map fst (word_positions r) = labels_of r"
  by (simp add: word_positions_zip length_labels_of length_intervals)

lemma spec_width_pos: "w \<noteq> [] \<Longrightarrow> 0 < spec_width i w"
  by (simp add: spec_width_def PPC_def)

section \<open>Deserialising what the builder serialises\<close>

lemma plain_not_quote: "plain c \<Longrightarrow> c \<noteq> CHR 0x22"
  by (simp add: plain_def Let_def)

lemma json_escape_plain: "plain c \<Longrightarrow> json_escape c = [c]"
  by (auto simp: plain_def json_escape_def Let_def)

lemma json_str_plain: "list_all plain k \<Longrightarrow> json_str k = CHR 0x22 # k @ [CHR 0x22]"
proof -
  assume "list_all plain k"
  then have "concat (map json_escape k) = k"
    by (induction k) (auto simp: json_escape_plain)
  then show ?thesis by (simp add: json_str_def)
qed

lemma lex_string:
  "list_all plain k \<Longrightarrow>
   lex (InStr s) (k @ CHR 0x22 # rest) = map_option ((#) (StrLit (s @ k))) (lex Idle rest)"
  by (induction k arbitrary: s) (auto simp: plain_not_quote)

lemma lex_digits:
  "list_all isdigit ds \<Longrightarrow> \<not> isdigit c \<Longrightarrow>
   lex (InNum s) (ds @ c # rest) = lex (InNum (s @ ds)) (c # rest)"
  by (induction ds arbitrary: s) auto

lemma isdigit_not_minus: "isdigit c \<Longrightarrow> c \<noteq> CHR ''-''"
  by (auto simp: isdigit_def)

lemma int_token_str_int: "int_token (str_int a) = Some (IntLit a)"
proof (cases "a < 0")
  case True
  then show ?thesis
    by (simp add: str_int_def int_token_def wellformed_str_nat nat_of_digits_str_nat)
next
  case False
  obtain c ds where s: "str_nat (nat a) = c # ds"
    using str_nat_nonempty [of "nat a"] by (cases "str_nat (nat a)") auto
  with isdigit_str_nat [of "nat a"] have "c \<noteq> CHR ''-''"
    by (auto dest: isdigit_not_minus)
  moreover have "wellformed_digits (c # ds)" "nat_of_digits (c # ds) = nat a"
    using wellformed_str_nat [of "nat a"] nat_of_digits_str_nat [of "nat a"] by (simp_all add: s)
  ultimately show ?thesis using False
    by (simp add: str_int_def int_token_def s)
qed

lemma str_int_shape:
  "\<exists>c ds. str_int a = c # ds \<and> (isdigit c \<or> c = CHR ''-'') \<and> list_all isdigit ds"
proof (cases "a < 0")
  case True
  then show ?thesis by (simp add: str_int_def isdigit_str_nat)
next
  case False
  obtain c ds where s: "str_nat (nat a) = c # ds"
    using str_nat_nonempty [of "nat a"] by (cases "str_nat (nat a)") auto
  with isdigit_str_nat [of "nat a"] False show ?thesis
    by (auto simp: str_int_def)
qed

lemma punct_facts: "punct c = Some p \<Longrightarrow> \<not> isdigit c \<and> c \<noteq> CHR '' ''"
  by (auto simp: punct_def isdigit_def split: if_splits)

lemma lex_int:
  assumes "punct c = Some p"
  shows "lex Idle (str_int a @ c # rest) = map_option (\<lambda>ts. IntLit a # p # ts) (lex Idle rest)"
proof -
  obtain c0 ds where s: "str_int a = c0 # ds" and c0: "isdigit c0 \<or> c0 = CHR ''-''"
    and ds: "list_all isdigit ds"
    using str_int_shape [of a] by blast
  from c0 have "c0 \<noteq> CHR '' ''" "c0 \<noteq> CHR 0x22"
    by (auto simp: isdigit_def)
  with c0 have "lex Idle (str_int a @ c # rest) = lex (InNum [c0]) (ds @ c # rest)"
    by (simp add: s)
  also have "\<dots> = lex (InNum (str_int a)) (c # rest)"
    using ds punct_facts [OF assms] by (simp add: lex_digits s)
  also have "\<dots> = map_option (\<lambda>ts. IntLit a # p # ts) (lex Idle rest)"
    using punct_facts [OF assms] assms by (simp add: int_token_str_int)
  finally show ?thesis .
qed

lemma lex_item:
  assumes "list_all plain k"
  shows "lex Idle (json_item (k, a, b) @ rest) =
           map_option (\<lambda>ts. item_tokens (k, a, b) @ ts) (lex Idle rest)"
proof -
  have "lex Idle (json_item (k, a, b) @ rest) =
          lex (InStr []) (k @ CHR 0x22 # '': ['' @ str_int a @ CHR '','' # '' '' @ str_int b @ CHR '']'' # rest)"
    by (simp add: json_str_plain [OF assms])
  also have "\<dots> = map_option ((#) (StrLit k))
          (lex Idle ('': ['' @ str_int a @ CHR '','' # '' '' @ str_int b @ CHR '']'' # rest))"
    by (simp add: lex_string [OF assms])
  also have "lex Idle ('': ['' @ str_int a @ CHR '','' # '' '' @ str_int b @ CHR '']'' # rest) =
          map_option (\<lambda>ts. Colon # LBrack # ts)
            (lex Idle (str_int a @ CHR '','' # '' '' @ str_int b @ CHR '']'' # rest))"
    by (simp add: punct_def isdigit_def option.map_comp comp_def)
  also have "lex Idle (str_int a @ CHR '','' # '' '' @ str_int b @ CHR '']'' # rest) =
          map_option (\<lambda>ts. IntLit a # Comma # ts) (lex Idle ('' '' @ str_int b @ CHR '']'' # rest))"
    by (rule lex_int) (simp add: punct_def)
  also have "lex Idle ('' '' @ str_int b @ CHR '']'' # rest) = lex Idle (str_int b @ CHR '']'' # rest)"
    by simp
  also have "\<dots> = map_option (\<lambda>ts. IntLit b # RBrack # ts) (lex Idle rest)"
    by (rule lex_int) (simp add: punct_def)
  finally show ?thesis
    by (simp add: option.map_comp comp_def)
qed

lemma lex_body:
  "\<forall>e \<in> set d. list_all plain (fst e) \<Longrightarrow>
   lex Idle (join '', '' (map json_item d) @ ''}'') = Some (body_tokens d)"
proof (induction d rule: body_tokens.induct)
  case 1
  then show ?case by (simp add: punct_def isdigit_def)
next
  case (2 e)
  obtain k a b where e: "e = (k, a, b)" by (cases e) auto
  with 2 have "list_all plain k" by simp
  then show ?case
    unfolding e by (simp add: lex_item punct_def isdigit_def del: json_item.simps)
next
  case (3 e e' es)
  obtain k a b where e: "e = (k, a, b)" by (cases e) auto
  with 3 have k: "list_all plain k" by simp
  from 3 have IH: "lex Idle (join '', '' (map json_item (e' # es)) @ ''}'') = Some (body_tokens (e' # es))"
    by simp
  have "lex Idle (join '', '' (map json_item (e # e' # es)) @ ''}'') =
        lex Idle (json_item (k, a, b) @ '', '' @ join '', '' (map json_item (e' # es)) @ ''}'')"
    by (simp add: e)
  also have "\<dots> = map_option (\<lambda>ts. item_tokens (k, a, b) @ ts)
        (lex Idle ('', '' @ join '', '' (map json_item (e' # es)) @ ''}''))"
    by (rule lex_item [OF k])
  also have "lex Idle ('', '' @ join '', '' (map json_item (e' # es)) @ ''}'') =
        map_option ((#) Comma) (lex Idle (join '', '' (map json_item (e' # es)) @ ''}''))"
    by (simp add: punct_def isdigit_def)
  finally have "lex Idle (join '', '' (map json_item (e # e' # es)) @ ''}'') =
        map_option (\<lambda>ts. item_tokens (k, a, b) @ ts)
          (map_option ((#) Comma) (lex Idle (join '', '' (map json_item (e' # es)) @ ''}'')))" .
  then show ?case
    unfolding IH by (simp add: e)
qed

lemma entry_item: "entry (item_tokens (k, a, b) @ ts) = Some ((k, a, b), ts)"
  by (simp add: entry_def)

lemma items_body: "items (body_tokens d) acc = Some (store_all d acc)"
proof (induction d arbitrary: acc rule: body_tokens.induct)
  case 1
  then show ?case by (subst items.simps) (simp add: entry_def)
next
  case (2 e)
  obtain k a b where e: "e = (k, a, b)" by (cases e) auto
  show ?case
    unfolding e body_tokens.simps by (subst items.simps) (simp add: entry_item del: item_tokens.simps)
next
  case (3 e e' es)
  obtain k a b where e: "e = (k, a, b)" by (cases e) auto
  show ?case
    unfolding e body_tokens.simps
    by (subst items.simps) (simp add: entry_item 3 del: item_tokens.simps body_tokens.simps)
qed

lemma store_all_fresh:
  "distinct (map fst d) \<Longrightarrow> fst ` set acc \<inter> fst ` set d = {} \<Longrightarrow> store_all d acc = acc @ d"
proof (induction d arbitrary: acc)
  case Nil
  then show ?case by simp
next
  case (Cons e d)
  obtain k v where e: "e = (k, v)" by (cases e) auto
  from Cons.prems have "k \<notin> fst ` set acc" by (auto simp: e)
  then have upd: "AList.update k v acc = acc @ [(k, v)]" by (rule update_fresh)
  from Cons.prems have "store_all d (acc @ [(k, v)]) = (acc @ [(k, v)]) @ d"
    by (intro Cons.IH) (auto simp: e)
  then show ?case by (simp add: e upd)
qed

lemma literal_eval_dumps:
  assumes "distinct (map fst d)" and "\<forall>e \<in> set d. list_all plain (fst e)"
  shows "literal_eval (dumps d) = Inr d"
proof -
  have "lex Idle (dumps d) = Some (LBrace # body_tokens d)"
    using lex_body [OF assms(2)] by (simp add: dumps_def punct_def isdigit_def)
  moreover have "items (body_tokens d) [] = Some d"
    using store_all_fresh [OF assms(1), of "[]"] by (simp add: items_body)
  ultimately show ?thesis by (simp add: literal_eval_def)
qed

lemma plain_isdigit: "isdigit c \<Longrightarrow> plain c"
  by (auto simp: isdigit_def plain_def Let_def)

lemma plain_label: "list_all plain (label region i)"
proof -
  have "list_all plain (str_nat n)" for n
    using isdigit_str_nat [of n] by (auto simp: list_all_iff dest: plain_isdigit)
  moreover have "plain CHR ''.''" by (simp add: plain_def)
  ultimately show ?thesis by (simp add: label_def)
qed

lemma distinct_region_labels: "distinct (region_labels region ws)"
  unfolding region_labels_def
  by (rule iffD2 [OF distinct_map]) (auto simp: inj_on_def dest: label_inj)

lemma region_labels_disjoint:
  "region \<noteq> region' \<Longrightarrow> set (region_labels region ws) \<inter> set (region_labels region' ws') = {}"
  by (auto simp: region_labels_def dest: label_inj)

lemma distinct_labels_of: "distinct (labels_of r)"
  by (simp add: labels_of_def distinct_region_labels region_labels_disjoint Int_Un_distrib Int_Un_distrib2)

lemma plain_labels_of: "k \<in> set (labels_of r) \<Longrightarrow> list_all plain k"
  by (auto simp: labels_of_def region_labels_def plain_label)

lemma literal_eval_fill_word_labels: "literal_eval (fill_word_labels r) = Inr (word_positions r)"
  unfolding fill_word_labels_def
proof (rule literal_eval_dumps)
  show "distinct (map fst (word_positions r))"
    by (simp add: map_fst_word_positions distinct_labels_of)
  show "\<forall>e \<in> set (word_positions r). list_all plain (fst e)"
    using map_fst_word_positions [of r] plain_labels_of [of _ r]
    by (metis image_eqI list.set_map)
qed

section \<open>The resolver on a numeric fixation\<close>

lemma scan_num: "scan wp (Num q) = Inr (map_option fst (find (hit q) wp))"
  by (induction wp) (auto simp: hit_def in_interval_def)

lemma all_values_empty: "all_values wp = [] \<longleftrightarrow> wp = []"
  by (cases wp) (auto simp: all_values_def)

lemma set_all_values:
  "set (all_values wp) = (\<lambda>e. fst (snd e)) ` set wp \<union> (\<lambda>e. snd (snd e)) ` set wp"
  by (induction wp) (auto simp: all_values_def)

lemma py_min_nonempty: "xs \<noteq> [] \<Longrightarrow> py_min xs = Inr (Min (set xs))"
  by (cases xs) (simp_all add: Min.set_eq_fold [symmetric])

lemma py_max_nonempty: "xs \<noteq> [] \<Longrightarrow> py_max xs = Inr (Max (set xs))"
  by (cases xs) (simp_all add: Max.set_eq_fold [symmetric])

lemma resolve_miss:
  assumes "wp \<noteq> []" and "find (hit q) wp = None"
  shows "resolve wp (Num q) =
     Inr (if q = of_int (min_endpoint wp) then Str ''1.1''
          else if q < of_int (min_endpoint wp) then Str ''left''
          else if q > of_int (max_endpoint wp) then Str ''right''
          else PyNone)"
  using assms
  by (simp add: resolve_def scan_num py_min_nonempty py_max_nonempty all_values_empty
        min_endpoint_def max_endpoint_def)

lemma resolve_hit:
  assumes "find (hit q) wp = Some (key, x_min, x_max)"
  shows "resolve wp (Num q) = Inr (Str key)"
  using assms by (simp add: resolve_def scan_num)

lemma min_endpoint_le:
  assumes "e \<in> set wp"
  shows "min_endpoint wp \<le> fst (snd e)" and "min_endpoint wp \<le> snd (snd e)"
  using assms by (auto simp: min_endpoint_def set_all_values intro!: Min_le)

lemma max_endpoint_ge:
  assumes "e \<in> set wp"
  shows "fst (snd e) \<le> max_endpoint wp" and "snd (snd e) \<le> max_endpoint wp"
  using assms by (auto simp: max_endpoint_def set_all_values intro!: Max_ge)

lemma no_hit_at_or_below_min:
  assumes "q \<le> of_int (min_endpoint wp)"
  shows "find (hit q) wp = None"
proof -
  have "\<not> hit q e" if "e \<in> set wp" for e
  proof -
    from that have "min_endpoint wp \<le> fst (snd e)" by (rule min_endpoint_le)
    then have "(of_int (min_endpoint wp) :: rat) \<le> of_int (fst (snd e))" by simp
    with assms show ?thesis by (simp add: hit_def)
  qed
  then show ?thesis by (simp add: find_None_iff)
qed

lemma no_hit_above_max:
  assumes "q > of_int (max_endpoint wp)"
  shows "find (hit q) wp = None"
proof -
  have "\<not> hit q e" if "e \<in> set wp" for e
  proof -
    from that have "snd (snd e) \<le> max_endpoint wp" by (rule max_endpoint_ge)
    then have "(of_int (snd (snd e)) :: rat) \<le> of_int (max_endpoint wp)" by simp
    with assms show ?thesis by (simp add: hit_def)
  qed
  then show ?thesis by (simp add: find_None_iff)
qed

lemma min_le_max_endpoint: "wp \<noteq> [] \<Longrightarrow> min_endpoint wp \<le> max_endpoint wp"
  by (simp add: min_endpoint_def max_endpoint_def all_values_empty Min_le_iff)

lemma find_interest_area_num:
  "literal_eval positions = Inr wp \<Longrightarrow> find_interest_area positions (Num q) = resolve wp (Num q)"
  by (simp add: find_interest_area_def)

section \<open>The resolver on the builder's intervals\<close>

lemma intervals_bounds:
  assumes "\<forall>w \<in> set ws. w \<noteq> []" and "0 \<le> sp" and "(a, b) \<in> set (intervals c sp ws)"
  shows "c \<le> a \<and> a < b"
  using assms
proof (induction ws arbitrary: c sp)
  case Nil
  then show ?case by simp
next
  case (Cons w ws)
  from Cons.prems have w: "0 < PPC * (int (length w) + sp)"
    by (cases w) (auto simp: PPC_def)
  from Cons.prems(3) consider "(a, b) = (c, c + PPC * (int (length w) + sp))"
    | "(a, b) \<in> set (intervals (c + PPC * (int (length w) + sp)) 1 ws)" by auto
  then show ?case
  proof cases
    case 1
    with w show ?thesis by simp
  next
    case 2
    with Cons.prems have "c + PPC * (int (length w) + sp) \<le> a \<and> a < b"
      by (intro Cons.IH) auto
    with w show ?thesis by simp
  qed
qed

lemma hit_int: "hit (of_int q) (k, a, b) \<longleftrightarrow> a < q \<and> q \<le> b"
  by (simp add: hit_def)

lemma find_right_edge:
  assumes "\<forall>w \<in> set ws. w \<noteq> []" and "0 \<le> sp" and "length ks = length ws" and "i < length ws"
  shows "find (hit (of_int (snd (intervals c sp ws ! i)))) (zip ks (intervals c sp ws)) =
           Some (zip ks (intervals c sp ws) ! i)"
  using assms
proof (induction ws arbitrary: c sp ks i)
  case Nil
  then show ?case by simp
next
  case (Cons w ws)
  let ?e = "c + PPC * (int (length w) + sp)"
  from Cons.prems have w: "0 < PPC * (int (length w) + sp)"
    by (cases w) (auto simp: PPC_def)
  obtain k ks' where ks: "ks = k # ks'" "length ks' = length ws"
    using Cons.prems(3) by (cases ks) auto
  show ?case
  proof (cases i)
    case 0
    with w show ?thesis by (simp add: ks hit_int del: of_int_add of_int_mult)
  next
    case (Suc j)
    with Cons.prems have j: "j < length ws" by simp
    obtain a b where ab: "intervals ?e 1 ws ! j = (a, b)" by (cases "intervals ?e 1 ws ! j") auto
    with j have "(a, b) \<in> set (intervals ?e 1 ws)"
      by (metis length_intervals nth_mem)
    with Cons.prems(1) have "?e \<le> a \<and> a < b"
      by (intro intervals_bounds [where sp = 1 and ws = ws]) auto
    then have miss: "\<not> hit (of_int b) (k, c, ?e)"
      by (simp add: hit_int del: of_int_add of_int_mult)
    have "find (hit (of_int (snd (intervals ?e 1 ws ! j)))) (zip ks' (intervals ?e 1 ws)) =
           Some (zip ks' (intervals ?e 1 ws) ! j)"
      using Cons.prems(1) ks(2) j by (intro Cons.IH) auto
    with miss show ?thesis
      by (simp add: ks Suc ab del: of_int_add of_int_mult)
  qed
qed

lemma find_left_edge:
  assumes "\<forall>w \<in> set ws. w \<noteq> []" and "0 \<le> sp"
  shows "find (hit (of_int c)) (zip ks (intervals c sp ws)) = None"
proof -
  have "\<not> hit (of_int c) e" if "e \<in> set (zip ks (intervals c sp ws))" for e
  proof -
    obtain k a b where e: "e = (k, a, b)" by (cases e) auto
    with that have "(a, b) \<in> set (intervals c sp ws)" by (auto dest: set_zip_rightD)
    with assms have "c \<le> a \<and> a < b" by (rule intervals_bounds)
    then show ?thesis by (simp add: hit_int e)
  qed
  then show ?thesis by (simp add: find_None_iff)
qed

lemma words_of_all_nonempty: "\<forall>w \<in> set (words_of r). w \<noteq> []"
  by (auto dest: words_of_nonempty)

lemma word_positions_right_edge:
  assumes "i < length (word_positions r)"
  shows "find (hit (of_int (snd (snd (word_positions r ! i))))) (word_positions r) =
           Some (word_positions r ! i)"
proof -
  from assms have i: "i < length (words_of r)" by (simp add: length_word_positions)
  have "find (hit (of_int (snd (intervals Offset 0 (words_of r) ! i))))
          (zip (labels_of r) (intervals Offset 0 (words_of r))) =
        Some (zip (labels_of r) (intervals Offset 0 (words_of r)) ! i)"
    by (rule find_right_edge [OF words_of_all_nonempty _ length_labels_of i]) simp
  with i show ?thesis
    by (simp add: word_positions_zip length_labels_of length_intervals)
qed

lemma word_positions_left_edge: "find (hit (of_int Offset)) (word_positions r) = None"
  unfolding word_positions_zip
  by (rule find_left_edge [OF words_of_all_nonempty]) simp

lemma split_all_space: "list_all isspace s \<Longrightarrow> split_from [] s = []"
  by (induction s) auto

lemma region_words_blank_text: "list_all isspace s \<Longrightarrow> region_words (Text s) = []"
  by (simp add: region_words_def split_def split_all_space)

lemma word_labeller_no_words: "region_words c = [] \<Longrightarrow> word_labeller region c st = st"
  by (simp add: word_labeller_def region_words_def)

lemma words_of_example:
  "words_of example_row = [''I'', ''did'', ''not'', ''go'', ''to'', ''school'', ''and'', ''stayed'', ''home.'']"
  by (simp add: words_of_def region_words_def example_row_def split_def isspace_def)

lemma word_positions_example:
  "word_positions example_row =
     [(''1.1'', 281, 295), (''1.2'', 295, 351), (''1.3'', 351, 407), (''2.1'', 407, 449),
      (''2.2'', 449, 491), (''3.1'', 491, 589), (''4.1'', 589, 645), (''4.2'', 645, 743),
      (''4.3'', 743, 827)]"
  by (simp add: word_positions_def labelled_def word_labeller_def example_row_def split_def
        isspace_def initial_state_def label_def str_nat.simps digit_char_def Offset_def PPC_def)

section \<open>The example row and the dictionary with a gap\<close>

lemma word_positions_bounds:
  assumes "e \<in> set (word_positions r)"
  shows "Offset \<le> fst (snd e) \<and> fst (snd e) < snd (snd e)"
proof -
  obtain k a b where e: "e = (k, a, b)" by (cases e) auto
  with assms have "(a, b) \<in> set (intervals Offset 0 (words_of r))"
    by (auto simp: word_positions_zip dest: set_zip_rightD)
  with words_of_all_nonempty have "Offset \<le> a \<and> a < b"
    by (intro intervals_bounds [where sp = 0 and ws = "words_of r"]) auto
  then show ?thesis by (simp add: e)
qed

lemma min_endpoint_word_positions:
  assumes "word_positions r \<noteq> []"
  shows "min_endpoint (word_positions r) = Offset"
  unfolding min_endpoint_def
proof (rule Min_eqI)
  show "finite (set (all_values (word_positions r)))" by simp
  show "Offset \<le> y" if "y \<in> set (all_values (word_positions r))" for y
    using that word_positions_bounds [of _ r] by (fastforce simp: set_all_values)
  from assms have "0 < length (words_of r)" by (simp add: length_word_positions [symmetric])
  then have "word_positions r ! 0 = (labels_of r ! 0, spec_cursor (words_of r) 0,
      spec_cursor (words_of r) 0 + spec_width 0 (words_of r ! 0))"
    by (rule word_positions_nth)
  with assms have "fst (snd (hd (word_positions r))) = Offset"
    by (simp add: hd_conv_nth)
  moreover from assms have "hd (word_positions r) \<in> set (word_positions r)" by simp
  ultimately show "Offset \<in> set (all_values (word_positions r))"
    by (force simp: set_all_values)
qed

lemma find_example:
  "find_interest_area (fill_word_labels example_row) (Num q) = resolve (word_positions example_row) (Num q)"
  by (rule find_interest_area_num [OF literal_eval_fill_word_labels])

lemma resolve_example_290: "resolve (word_positions example_row) (Num 290) = Inr (Str ''1.1'')"
  by (simp add: word_positions_example resolve_def in_interval_def)

lemma resolve_example_295: "resolve (word_positions example_row) (Num 295) = Inr (Str ''1.1'')"
  by (simp add: word_positions_example resolve_def in_interval_def)

lemma resolve_example_296: "resolve (word_positions example_row) (Num 296) = Inr (Str ''1.2'')"
  by (simp add: word_positions_example resolve_def in_interval_def)

lemma literal_eval_gap: "literal_eval gap_positions = Inr gap_map"
  by (simp add: gap_positions_def gap_map_def literal_eval_def punct_def isdigit_def plain_def
        int_token_def wellformed_digits_def nat_of_digits_def items.simps entry_def)

lemma gap_endpoints: "min_endpoint gap_map = 0" "max_endpoint gap_map = 30"
  by (simp_all add: min_endpoint_def max_endpoint_def all_values_def gap_map_def)

lemma gap_no_hit: "find (hit 15) gap_map = None"
  by (simp add: gap_map_def hit_def)

section \<open>The claims\<close>

subsection \<open>C1: the layout of the words\<close>

text \<open>
  Claim C1 as stated fails on the row of the script's example: the second word, \<open>did\<close>,
  has width 14 * (3 + 1) = 56, so its interval is (295, 351), not (295, 323).
\<close>

theorem second_word_interval_counterexample:
  "map_of (word_positions example_row) ''1.2'' = Some (295, 351) \<and>
   map_of (word_positions example_row) ''1.2'' \<noteq> Some (295, 323)"
  by (simp add: word_positions_example)

text \<open>
  Claim C1, amended. For every row, the labels of the dictionary are those of the words in
  region order 1 (beginning), 2 (pretarget), 3 (target), 4 (ending) and in word order
  within each region, and the \<open>i\<close>-th word met has the interval that starts at the running
  cursor and has width \<open>PPC * (len(word) + extra)\<close>, where \<open>extra\<close> is 0 for the very first
  word met and 1 for every later one. For the example row, with offset 281 and character
  width 14, word \<open>1.1\<close> has interval (281, 295) and word \<open>1.2\<close> has interval (295, 351); a
  fixation at 290 resolves to \<open>1.1\<close>, at 295 to \<open>1.1\<close> and at 296 to \<open>1.2\<close>.
\<close>

theorem builder_lays_out_words:
  "map fst (word_positions r) = labels_of r \<and>
   length (word_positions r) = length (words_of r) \<and>
   (\<forall>i < length (words_of r).
      snd (word_positions r ! i) =
        (spec_cursor (words_of r) i, spec_cursor (words_of r) i + spec_width i (words_of r ! i))) \<and>
   map_of (word_positions example_row) ''1.1'' = Some (281, 295) \<and>
   map_of (word_positions example_row) ''1.2'' = Some (295, 351) \<and>
   find_interest_area (fill_word_labels example_row) (Num 290) = Inr (Str ''1.1'') \<and>
   find_interest_area (fill_word_labels example_row) (Num 295) = Inr (Str ''1.1'') \<and>
   find_interest_area (fill_word_labels example_row) (Num 296) = Inr (Str ''1.2'')"
proof -
  have "\<forall>i < length (words_of r).
      snd (word_positions r ! i) =
        (spec_cursor (words_of r) i, spec_cursor (words_of r) i + spec_width i (words_of r ! i))"
    by (simp add: word_positions_nth)
  moreover have "map_of (word_positions example_row) ''1.1'' = Some (281, 295)"
    and "map_of (word_positions example_row) ''1.2'' = Some (295, 351)"
    by (simp_all add: word_positions_example)
  ultimately show ?thesis
    by (simp only: map_fst_word_positions length_word_positions find_example
          resolve_example_290 resolve_example_295 resolve_example_296 simp_thms)
qed

theorem builder_lays_out_words_witness:
  "1 < length (words_of example_row) \<and>
   words_of example_row ! 1 = ''did'' \<and>
   spec_cursor (words_of example_row) 1 = 295 \<and>
   spec_width 1 (words_of example_row ! 1) = 56 \<and>
   snd (word_positions example_row ! 1) = (295, 351)"
proof -
  have len: "1 < length (words_of example_row)" and w: "words_of example_row ! 1 = ''did''"
    by (simp_all add: words_of_example)
  have c: "spec_cursor (words_of example_row) 1 = 295"
    by (simp add: words_of_example spec_width_def Offset_def PPC_def)
  have wd: "spec_width 1 (words_of example_row ! 1) = 56"
    by (simp add: words_of_example spec_width_def PPC_def)
  from builder_lays_out_words [of example_row] len
  have "snd (word_positions example_row ! 1) =
        (spec_cursor (words_of example_row) 1,
         spec_cursor (words_of example_row) 1 + spec_width 1 (words_of example_row ! 1))"
    by blast
  then have "snd (word_positions example_row ! 1) = (295, 351)"
    by (simp only: c wd) simp
  with len w c wd show ?thesis by blast
qed

subsection \<open>C2: consecutive intervals abut\<close>

text \<open>
  Claim C2. For every row, in the dictionary the builder produces, the end of each
  interval is the start of the next (in the builder's order), every interval is non-empty
  (so that abutting intervals cannot overlap), and the first interval starts at the
  left-edge offset.
\<close>

theorem intervals_abut:
  "(\<forall>i. Suc i < length (word_positions r) \<longrightarrow>
      snd (snd (word_positions r ! i)) = fst (snd (word_positions r ! Suc i))) \<and>
   (\<forall>i < length (word_positions r).
      fst (snd (word_positions r ! i)) < snd (snd (word_positions r ! i))) \<and>
   (word_positions r \<noteq> [] \<longrightarrow> fst (snd (hd (word_positions r))) = Offset)"
proof (intro conjI allI impI)
  fix i
  assume "Suc i < length (word_positions r)"
  then have "Suc i < length (words_of r)" by (simp add: length_word_positions)
  then show "snd (snd (word_positions r ! i)) = fst (snd (word_positions r ! Suc i))"
    by (simp add: word_positions_nth)
next
  fix i
  assume "i < length (word_positions r)"
  then have i: "i < length (words_of r)" by (simp add: length_word_positions)
  then have "words_of r ! i \<in> set (words_of r)" by (rule nth_mem)
  then have "words_of r ! i \<noteq> []" by (rule words_of_nonempty)
  then have "0 < spec_width i (words_of r ! i)" by (rule spec_width_pos)
  with i show "fst (snd (word_positions r ! i)) < snd (snd (word_positions r ! i))"
    by (simp add: word_positions_nth)
next
  assume "word_positions r \<noteq> []"
  then have "0 < length (words_of r)" by (simp add: length_word_positions [symmetric])
  then have "word_positions r ! 0 = (labels_of r ! 0, spec_cursor (words_of r) 0,
      spec_cursor (words_of r) 0 + spec_width 0 (words_of r ! 0))"
    by (rule word_positions_nth)
  with \<open>word_positions r \<noteq> []\<close> show "fst (snd (hd (word_positions r))) = Offset"
    by (simp add: hd_conv_nth)
qed

theorem intervals_abut_witness:
  "Suc 0 < length (word_positions example_row) \<and>
   snd (snd (word_positions example_row ! 0)) = 295 \<and>
   fst (snd (word_positions example_row ! Suc 0)) = 295 \<and>
   fst (snd (word_positions example_row ! 0)) < snd (snd (word_positions example_row ! 0)) \<and>
   word_positions example_row \<noteq> [] \<and>
   fst (snd (hd (word_positions example_row))) = 281"
proof -
  have len: "Suc 0 < length (word_positions example_row)" "0 < length (word_positions example_row)"
    and ne: "word_positions example_row \<noteq> []"
    and e: "snd (snd (word_positions example_row ! 0)) = 295"
    by (simp_all add: word_positions_example)
  from intervals_abut [of example_row] len(1)
  have "snd (snd (word_positions example_row ! 0)) = fst (snd (word_positions example_row ! Suc 0))"
    by blast
  with e have a: "fst (snd (word_positions example_row ! Suc 0)) = 295" by simp
  from intervals_abut [of example_row] len(2)
  have b: "fst (snd (word_positions example_row ! 0)) < snd (snd (word_positions example_row ! 0))"
    by blast
  from intervals_abut [of example_row] ne
  have "fst (snd (hd (word_positions example_row))) = Offset" by blast
  then have c: "fst (snd (hd (word_positions example_row))) = 281" by (simp add: Offset_def)
  from len ne e a b c show ?thesis by blast
qed

subsection \<open>C3: a fixation that matches nothing\<close>

text \<open>
  Claim C3 as stated fails: for a dictionary with a gap between its intervals, a fixation
  in the gap (outside all intervals, not the least endpoint, not below it, not above the
  greatest) makes the resolver return \<open>None\<close>, Python's null, and no explicit marker. The
  same value is returned on the example row for the fixation \<open>nan\<close> of an empty cell.
\<close>

theorem unmatched_fixation_counterexample:
  "literal_eval gap_positions = Inr gap_map \<and>
   find (hit 15) gap_map = None \<and>
   (15 :: rat) \<noteq> of_int (min_endpoint gap_map) \<and>
   \<not> (15 :: rat) < of_int (min_endpoint gap_map) \<and>
   \<not> (15 :: rat) > of_int (max_endpoint gap_map) \<and>
   find_interest_area gap_positions (Num 15) = Inr PyNone \<and>
   find_interest_area (fill_word_labels example_row) NaN = Inr PyNone"
proof -
  have "gap_map \<noteq> []" by (simp add: gap_map_def)
  then have "find_interest_area gap_positions (Num 15) = Inr PyNone"
    by (simp add: find_interest_area_num [OF literal_eval_gap] resolve_miss gap_no_hit gap_endpoints)
  moreover have "find_interest_area (fill_word_labels example_row) NaN = Inr PyNone"
    by (simp add: find_interest_area_def literal_eval_fill_word_labels word_positions_example
          resolve_def in_interval_def all_values_def)
  ultimately show ?thesis
    by (simp add: literal_eval_gap gap_no_hit gap_endpoints)
qed

text \<open>
  Claim C3, amended. For every non-empty dictionary and every numeric fixation that lies
  outside all intervals and is neither the least endpoint, nor below it, nor above the
  greatest endpoint, the resolver returns \<open>None\<close>; it does not raise.
\<close>

theorem unmatched_fixation_returns_none:
  assumes "literal_eval positions = Inr wp" and "wp \<noteq> []"
    and "find (hit q) wp = None"
    and "q \<noteq> of_int (min_endpoint wp)"
    and "\<not> q < of_int (min_endpoint wp)"
    and "\<not> q > of_int (max_endpoint wp)"
  shows "find_interest_area positions (Num q) = Inr PyNone"
  using assms by (simp add: find_interest_area_num resolve_miss)

theorem unmatched_fixation_returns_none_witness:
  "literal_eval gap_positions = Inr gap_map \<and> gap_map \<noteq> [] \<and>
   find (hit 15) gap_map = None \<and>
   (15 :: rat) \<noteq> of_int (min_endpoint gap_map) \<and>
   \<not> (15 :: rat) < of_int (min_endpoint gap_map) \<and>
   \<not> (15 :: rat) > of_int (max_endpoint gap_map) \<and>
   find_interest_area gap_positions (Num 15) = Inr PyNone"
proof -
  have h: "gap_map \<noteq> []" "(15 :: rat) \<noteq> of_int (min_endpoint gap_map)"
    "\<not> (15 :: rat) < of_int (min_endpoint gap_map)" "\<not> (15 :: rat) > of_int (max_endpoint gap_map)"
    by (simp_all add: gap_endpoints) (simp add: gap_map_def)
  from unmatched_fixation_returns_none [OF literal_eval_gap h(1) gap_no_hit h(2,3,4)]
  show ?thesis using h literal_eval_gap gap_no_hit by blast
qed

subsection \<open>C4: regions without text\<close>

text \<open>
  Claim C4 as stated fails for a missing region: the cell \<open>nan\<close> is converted by \<open>str\<close> to
  the text \<open>nan\<close>, which is one word of three characters. As the first region it gets the
  label \<open>1.1\<close> and the interval (281, 323), and the cursor advances from 281 to 323; in
  the example row, word \<open>2.1\<close> then starts at 323 instead of 281.
\<close>

theorem missing_region_counterexample:
  "region_words Blank = [''nan''] \<and>
   word_labels (word_labeller 1 Blank initial_state) = [(''1.1'', 281, 323)] \<and>
   last_word_ending_pos initial_state = 281 \<and>
   last_word_ending_pos (word_labeller 1 Blank initial_state) = 323 \<and>
   map_of (word_positions (example_row\<lparr>beginning := Text ''''\<rparr>)) ''2.1'' = Some (281, 309) \<and>
   map_of (word_positions (example_row\<lparr>beginning := Blank\<rparr>)) ''2.1'' = Some (323, 365)"
  by (simp add: word_positions_def labelled_def word_labeller_def region_words_def example_row_def
        split_def isspace_def initial_state_def label_def str_nat.simps digit_char_def Offset_def
        PPC_def)

text \<open>
  Claim C4, amended. For every region whose text is empty or consists of white space only,
  the region has no word and the builder's state (dictionary, cursor and extra-space flag)
  is left as it was, so the intervals of the regions after it are not affected.
\<close>

theorem empty_region_adds_nothing:
  "list_all isspace s \<Longrightarrow> region_words (Text s) = [] \<and> word_labeller region (Text s) st = st"
  by (simp add: region_words_blank_text word_labeller_no_words)

theorem empty_region_adds_nothing_witness:
  "list_all isspace '' '' \<and> region_words (Text '' '') = [] \<and>
   word_labeller 2 (Text '' '') initial_state = initial_state \<and>
   list_all isspace '''' \<and> word_labeller 3 (Text '''') initial_state = initial_state"
proof -
  have a: "list_all isspace '' ''" and b: "list_all isspace ''''"
    by (simp_all add: isspace_def)
  from empty_region_adds_nothing [OF a, of 2 initial_state]
    empty_region_adds_nothing [OF b, of 3 initial_state] a b
  show ?thesis by blast
qed

subsection \<open>C5: the first interval that holds the fixation\<close>

text \<open>
  Claim C5. For every dictionary and numeric fixation, when \<open>(key, x_min, x_max)\<close> is the
  first entry with \<open>x_min < fixation <= x_max\<close>, the resolver returns \<open>key\<close>. On the
  dictionary the builder produces for a row, a fixation equal to the right edge of an
  interval resolves to the label of that interval (not of the next one: the labels are
  pairwise distinct), and a fixation equal to the left-edge offset lies in no interval.
\<close>

theorem first_matching_interval:
  "(literal_eval positions = Inr wp \<and> find (hit q) wp = Some (key, x_min, x_max) \<longrightarrow>
      find_interest_area positions (Num q) = Inr (Str key)) \<and>
   (i < length (word_positions r) \<longrightarrow>
      find_interest_area (fill_word_labels r) (Num (of_int (snd (snd (word_positions r ! i))))) =
        Inr (Str (fst (word_positions r ! i)))) \<and>
   find (hit (of_int Offset)) (word_positions r) = None \<and>
   distinct (map fst (word_positions r))"
proof (intro conjI impI)
  assume "literal_eval positions = Inr wp \<and> find (hit q) wp = Some (key, x_min, x_max)"
  then show "find_interest_area positions (Num q) = Inr (Str key)"
    by (simp add: find_interest_area_num resolve_hit)
next
  assume i: "i < length (word_positions r)"
  obtain k a b where e: "word_positions r ! i = (k, a, b)"
    by (cases "word_positions r ! i") auto
  with word_positions_right_edge [OF i]
  have "find (hit (of_int b)) (word_positions r) = Some (k, a, b)" by simp
  then have "resolve (word_positions r) (Num (of_int b)) = Inr (Str k)"
    by (rule resolve_hit)
  then show "find_interest_area (fill_word_labels r) (Num (of_int (snd (snd (word_positions r ! i))))) =
        Inr (Str (fst (word_positions r ! i)))"
    by (simp add: find_interest_area_num [OF literal_eval_fill_word_labels] e)
next
  show "find (hit (of_int Offset)) (word_positions r) = None"
    by (rule word_positions_left_edge)
next
  show "distinct (map fst (word_positions r))"
    by (simp add: map_fst_word_positions distinct_labels_of)
qed

theorem first_matching_interval_witness:
  "literal_eval (fill_word_labels example_row) = Inr (word_positions example_row) \<and>
   find (hit 295) (word_positions example_row) = Some (''1.1'', 281, 295) \<and>
   find_interest_area (fill_word_labels example_row) (Num 295) = Inr (Str ''1.1'') \<and>
   0 < length (word_positions example_row) \<and>
   word_positions example_row ! 0 = (''1.1'', 281, 295) \<and>
   word_positions example_row ! 1 = (''1.2'', 295, 351) \<and>
   find (hit 281) (word_positions example_row) = None"
proof -
  have a: "literal_eval (fill_word_labels example_row) = Inr (word_positions example_row)"
    by (rule literal_eval_fill_word_labels)
  have b: "find (hit 295) (word_positions example_row) = Some (''1.1'', 281, 295)"
    and c: "0 < length (word_positions example_row)"
    and d: "word_positions example_row ! 0 = (''1.1'', 281, 295)"
       "word_positions example_row ! 1 = (''1.2'', 295, 351)"
    by (simp_all add: word_positions_example hit_def)
  from first_matching_interval [of "fill_word_labels example_row" "word_positions example_row"
      295 "''1.1''" 281 295 0 example_row] a b
  have "find_interest_area (fill_word_labels example_row) (Num 295) = Inr (Str ''1.1'')"
    and "find (hit (of_int Offset)) (word_positions example_row) = None"
    by blast+
  then show ?thesis using a b c d by (simp add: Offset_def)
qed

subsection \<open>C6: the least endpoint\<close>

text \<open>
  Claim C6. For every non-empty dictionary, a numeric fixation equal to the least endpoint
  of all intervals resolves to \<open>1.1\<close>. For a row whose beginning region has a word, \<open>1.1\<close>
  is the label of the first word and the least endpoint is the left-edge offset.
\<close>

theorem min_endpoint_resolves_to_first_label:
  "(literal_eval positions = Inr wp \<and> wp \<noteq> [] \<longrightarrow>
      find_interest_area positions (Num (of_int (min_endpoint wp))) = Inr (Str ''1.1'')) \<and>
   (region_words (beginning r) \<noteq> [] \<longrightarrow>
      fst (hd (word_positions r)) = ''1.1'' \<and> min_endpoint (word_positions r) = Offset)"
proof (intro conjI impI)
  assume h: "literal_eval positions = Inr wp \<and> wp \<noteq> []"
  have "find (hit (of_int (min_endpoint wp))) wp = None"
    by (rule no_hit_at_or_below_min) simp
  with h show "find_interest_area positions (Num (of_int (min_endpoint wp))) = Inr (Str ''1.1'')"
    by (simp add: find_interest_area_num resolve_miss)
next
  assume h: "region_words (beginning r) \<noteq> []"
  then have len: "0 < length (words_of r)" by (simp add: words_of_def)
  then have ne: "word_positions r \<noteq> []" by (simp add: length_word_positions [symmetric])
  from h have "labels_of r ! 0 = label 1 1"
    by (cases "region_words (beginning r)") (simp_all add: labels_of_def region_labels_def upt_conv_Cons del: upt_Suc)
  then have l: "labels_of r ! 0 = ''1.1''"
    by (simp add: label_def str_nat.simps digit_char_def)
  from word_positions_nth [OF len] l ne
  show "fst (hd (word_positions r)) = ''1.1''"
    by (simp add: hd_conv_nth)
  from ne show "min_endpoint (word_positions r) = Offset"
    by (rule min_endpoint_word_positions)
qed

theorem min_endpoint_resolves_to_first_label_witness:
  "literal_eval (fill_word_labels example_row) = Inr (word_positions example_row) \<and>
   word_positions example_row \<noteq> [] \<and>
   min_endpoint (word_positions example_row) = 281 \<and>
   find_interest_area (fill_word_labels example_row) (Num 281) = Inr (Str ''1.1'') \<and>
   region_words (beginning example_row) \<noteq> [] \<and>
   fst (hd (word_positions example_row)) = ''1.1''"
proof -
  have a: "literal_eval (fill_word_labels example_row) = Inr (word_positions example_row)"
    by (rule literal_eval_fill_word_labels)
  have b: "word_positions example_row \<noteq> []"
    by (simp add: word_positions_example)
  have c: "region_words (beginning example_row) \<noteq> []"
    by (simp add: region_words_def example_row_def split_def isspace_def)
  from min_endpoint_resolves_to_first_label
    [of "fill_word_labels example_row" "word_positions example_row" example_row] a b c
  have "find_interest_area (fill_word_labels example_row)
          (Num (of_int (min_endpoint (word_positions example_row)))) = Inr (Str ''1.1'')"
    and "fst (hd (word_positions example_row)) = ''1.1''"
    and "min_endpoint (word_positions example_row) = Offset"
    by blast+
  then show ?thesis using a b c by (simp add: Offset_def)
qed

subsection \<open>C7: left and right of the sentence\<close>

text \<open>
  Claim C7. For every non-empty dictionary, a numeric fixation below the least endpoint
  resolves to \<open>left\<close> and a numeric fixation above the greatest endpoint resolves to
  \<open>right\<close>.
\<close>

theorem outside_resolves_to_left_or_right:
  assumes "literal_eval positions = Inr wp" and "wp \<noteq> []"
  shows "(q < of_int (min_endpoint wp) \<longrightarrow>
            find_interest_area positions (Num q) = Inr (Str ''left'')) \<and>
         (q > of_int (max_endpoint wp) \<longrightarrow>
            find_interest_area positions (Num q) = Inr (Str ''right''))"
proof (intro conjI impI)
  assume q: "q < of_int (min_endpoint wp)"
  then have "find (hit q) wp = None" by (intro no_hit_at_or_below_min) simp
  with assms q show "find_interest_area positions (Num q) = Inr (Str ''left'')"
    by (simp add: find_interest_area_num resolve_miss)
next
  assume q: "q > of_int (max_endpoint wp)"
  then have miss: "find (hit q) wp = None" by (rule no_hit_above_max)
  from assms(2) have "(of_int (min_endpoint wp) :: rat) \<le> of_int (max_endpoint wp)"
    by (simp add: min_le_max_endpoint)
  with q have "q \<noteq> of_int (min_endpoint wp)" "\<not> q < of_int (min_endpoint wp)" by simp_all
  with assms q miss show "find_interest_area positions (Num q) = Inr (Str ''right'')"
    by (simp add: find_interest_area_num resolve_miss)
qed

theorem outside_resolves_to_left_or_right_witness:
  "literal_eval (fill_word_labels example_row) = Inr (word_positions example_row) \<and>
   word_positions example_row \<noteq> [] \<and>
   min_endpoint (word_positions example_row) = 281 \<and>
   max_endpoint (word_positions example_row) = 827 \<and>
   find_interest_area (fill_word_labels example_row) (Num 280) = Inr (Str ''left'') \<and>
   find_interest_area (fill_word_labels example_row) (Num 828) = Inr (Str ''right'')"
proof -
  have a: "literal_eval (fill_word_labels example_row) = Inr (word_positions example_row)"
    by (rule literal_eval_fill_word_labels)
  have b: "word_positions example_row \<noteq> []"
    and c: "min_endpoint (word_positions example_row) = 281"
      "max_endpoint (word_positions example_row) = 827"
    by (simp_all add: word_positions_example min_endpoint_def max_endpoint_def all_values_def)
  from outside_resolves_to_left_or_right [OF a b, of 280] outside_resolves_to_left_or_right [OF a b, of 828]
  have "find_interest_area (fill_word_labels example_row) (Num 280) = Inr (Str ''left'')"
    and "find_interest_area (fill_word_labels example_row) (Num 828) = Inr (Str ''right'')"
    by (simp_all add: c)
  with a b c show ?thesis by blast
qed

subsection \<open>C8: the non-fixation sentinel\<close>

text \<open>
  Claim C8. For every positions argument, parsable or not, a fixation equal to the non-fixation
  sentinel \<open>"."\<close> is returned unchanged: the test comes before the positions are
  deserialised, so the result does not depend on them. The text \<open>{\<close> is one that the
  deserialiser rejects.
\<close>

theorem sentinel_returned_unchanged:
  "find_interest_area positions (Str ''.'') = Inr (Str ''.'') \<and>
   literal_eval ''{'' = Inl LiteralError \<and>
   find_interest_area ''{'' (Str ''.'') = Inr (Str ''.'')"
  by (simp add: find_interest_area_def literal_eval_def punct_def isdigit_def items.simps entry_def)

subsection \<open>C9: the serialised dictionary is read back\<close>

text \<open>
  Claim C9. For every row, the text \<open>json.dumps\<close> writes for the builder's dictionary is
  read by \<open>ast.literal_eval\<close> as a dictionary with the same labels, in the same order, and
  the same endpoints. The texts written for a row without words and for the example row
  are shown.
\<close>

theorem serialised_map_round_trip:
  \<open>literal_eval (fill_word_labels r) = Inr (word_positions r) \<and>
   fill_word_labels blank_row = ''{}'' \<and>
   fill_word_labels example_row =
     ''{"1.1": [281, 295], "1.2": [295, 351], "1.3": [351, 407], "2.1": [407, 449], "2.2": [449, 491], "3.1": [491, 589], "4.1": [589, 645], "4.2": [645, 743], "4.3": [743, 827]}''\<close>
proof -
  have "fill_word_labels blank_row = ''{}''"
    by (simp add: fill_word_labels_def dumps_def word_positions_def labelled_def word_labeller_def
          blank_row_def split_def isspace_def initial_state_def)
  moreover have \<open>fill_word_labels example_row =
     ''{"1.1": [281, 295], "1.2": [295, 351], "1.3": [351, 407], "2.1": [407, 449], "2.2": [449, 491], "3.1": [491, 589], "4.1": [589, 645], "4.2": [645, 743], "4.3": [743, 827]}''\<close>
    by (simp add: fill_word_labels_def word_positions_example dumps_def json_str_def
          json_escape_def str_int_def str_nat.simps digit_char_def)
  ultimately show ?thesis
    by (simp only: literal_eval_fill_word_labels simp_thms)
qed

subsection \<open>C10: a row without words\<close>

text \<open>
  Claim C10. For a row whose four regions hold no word, the dictionary is empty, it is
  serialised as \<open>{}\<close>, and the resolver raises \<open>ValueError\<close> (\<open>min\<close> of an empty list) on
  every numeric fixation.
\<close>

theorem empty_map_raises:
  assumes "words_of r = []"
  shows "word_positions r = [] \<and> fill_word_labels r = ''{}'' \<and>
         find_interest_area (fill_word_labels r) (Num q) = Inl ValueError"
proof -
  from assms have e: "word_positions r = []" by (simp add: word_positions_zip)
  then have "resolve (word_positions r) (Num q) = Inl ValueError"
    by (simp add: resolve_def all_values_def)
  then have "find_interest_area (fill_word_labels r) (Num q) = Inl ValueError"
    by (simp add: find_interest_area_num [OF literal_eval_fill_word_labels])
  with e show ?thesis by (simp add: fill_word_labels_def dumps_def)
qed

theorem empty_map_raises_witness:
  "words_of blank_row = [] \<and> fill_word_labels blank_row = ''{}'' \<and>
   find_interest_area (fill_word_labels blank_row) (Num 300) = Inl ValueError"
proof -
  have a: "words_of blank_row = []"
    by (simp add: words_of_def region_words_def blank_row_def split_def isspace_def)
  from empty_map_raises [OF a, of 300] a show ?thesis by blast
qed

end
